theory Spec2Isabelle
  imports Main "HOL-Library.Word"
begin

section \<open>The pixel-data analysis of analyze\_dicom.py\<close>

text \<open>
  The script reads a DICOM file with pydicom, prints its meta information and then
  inspects the raw value of the PixelData element (7FE0,0010). Reading the file and the
  tag dictionary belong to pydicom; the embedding starts at the value of the element,
  \<open>raw\<close>, a Python \<open>bytes\<close> object, and follows the three passes the function
  \<open>analyze_dicom\<close> makes over it: the walk over the encapsulation items (lines 75-93),
  the search for the first MP4 atom (lines 103-114) and the read of the H.264 profile
  and level behind the avcC tag (lines 117-126). What the script prints is kept as the
  fields of a report.
\<close>

subsection \<open>Bytes, slices and the built-ins the script calls\<close>

type_synonym byte = "8 word"

type_synonym bytes = "byte list"

text \<open>
  \<open>raw[lo:hi]\<close> for \<open>0 \<le> lo \<le> hi\<close>: a Python slice never raises; it is cut at the
  end of the buffer.
\<close>

definition slice :: "'a list \<Rightarrow> nat \<Rightarrow> nat \<Rightarrow> 'a list" where
  "slice xs lo hi = take (hi - lo) (drop lo xs)"

text \<open>
  \<open>int.from_bytes(bs, 'little')\<close> and \<open>int.from_bytes(bs, 'big')\<close>: Python integers
  are unbounded, and a slice shorter than four bytes is read as the number its bytes
  spell (the empty slice as 0).
\<close>

definition from_bytes_little :: "bytes \<Rightarrow> nat" where
  "from_bytes_little bs = foldr (\<lambda>b acc. unat b + 256 * acc) bs 0"

definition from_bytes_big :: "bytes \<Rightarrow> nat" where
  "from_bytes_big bs = foldl (\<lambda>acc b. 256 * acc + unat b) 0 bs"

text \<open>
  \<open>raw.find(sub)\<close>: the lowest index at which \<open>sub\<close> occurs in \<open>raw\<close>, and -1
  when it does not occur. \<open>sub in raw\<close> holds when \<open>raw.find(sub)\<close> is not -1.
\<close>

fun find_at :: "bytes \<Rightarrow> nat \<Rightarrow> bytes \<Rightarrow> int" where
  "find_at sub k [] = (if sub = [] then int k else - 1)"
| "find_at sub k (x # xs) =
     (if take (length sub) (x # xs) = sub then int k else find_at sub (Suc k) xs)"

definition bytes_find :: "bytes \<Rightarrow> bytes \<Rightarrow> int" where
  "bytes_find raw sub = find_at sub 0 raw"

definition contains :: "bytes \<Rightarrow> bytes \<Rightarrow> bool" where
  "contains raw sub = (bytes_find raw sub \<noteq> - 1)"

text \<open>
  \<open>raw[i]\<close> for \<open>i \<ge> 0\<close>: the byte as an integer, and IndexError past the end.
  \<open>dcm[tag]\<close> raises KeyError when the dataset has no such element.
\<close>

datatype error = KeyError | IndexError

definition byte_at :: "bytes \<Rightarrow> nat \<Rightarrow> error + nat" where
  "byte_at raw i = (if i < length raw then Inr (unat (raw ! i)) else Inl IndexError)"

text \<open>The byte strings the script compares against.\<close>

definition item_tag :: bytes where
  "item_tag = [0xfe, 0xff, 0x00, 0xe0]"

definition sequence_delimiter :: bytes where
  "sequence_delimiter = [0xfe, 0xff, 0xdd, 0xe0]"

definition ftyp :: bytes where
  "ftyp = [0x66, 0x74, 0x79, 0x70]"

definition mdat :: bytes where
  "mdat = [0x6d, 0x64, 0x61, 0x74]"

definition avcC :: bytes where
  "avcC = [0x61, 0x76, 0x63, 0x43]"

subsection \<open>The MP4 signature check (lines 63-71)\<close>

text \<open>
  \<open>if b'ftyp' in raw[:100]\<close>: the position of the first ftyp in the whole value and the
  four bytes after it (the brand); otherwise the warning, here \<open>None\<close>.
\<close>

definition mp4_signature :: "bytes \<Rightarrow> (int \<times> bytes) option" where
  "mp4_signature raw =
     (if contains (take 100 raw) ftyp then
        (let ftyp_pos = bytes_find raw ftyp;
             brand_start = nat (ftyp_pos + 4)
         in Some (ftyp_pos, slice raw brand_start (brand_start + 4)))
      else None)"

subsection \<open>The encapsulation walk (lines 75-93)\<close>

text \<open>
  Each \<open>Item n at offset p: length=l\<close> line is an \<open>item\<close>; the
  \<open>Sequence delimiter at offset p\<close> line sets \<open>delimiter\<close>. The loop's variables
  \<open>pos\<close> and \<open>item_count\<close> are returned with what was printed.
\<close>

record item =
  item_index :: nat
  item_offset :: nat
  item_length :: nat

record scan_result =
  end_pos :: nat
  item_count :: nat
  items :: "item list"
  delimiter :: "nat option"

function encap_loop :: "bytes \<Rightarrow> nat \<Rightarrow> nat \<Rightarrow> item list \<Rightarrow> scan_result" where
  "encap_loop raw pos count found =
     (if pos < min (length raw) 200 then
        (if slice raw pos (pos + 4) = item_tag then
           (let len = from_bytes_little (slice raw (pos + 4) (pos + 8));
                found' = found @ [\<lparr>item_index = count, item_offset = pos, item_length = len\<rparr>]
            in if len = 0 then encap_loop raw (pos + 8) (count + 1) found'
               else if len = 0xffffffff then encap_loop raw (pos + 8) (count + 1) found'
               else \<lparr>end_pos = pos + 8 + len, item_count = count + 1,
                      items = found', delimiter = None\<rparr>)
         else if slice raw pos (pos + 4) = sequence_delimiter then
           \<lparr>end_pos = pos, item_count = count, items = found, delimiter = Some pos\<rparr>
         else encap_loop raw (pos + 1) count found)
      else \<lparr>end_pos = pos, item_count = count, items = found, delimiter = None\<rparr>)"
  by pat_completeness auto
termination
  by (relation "measure (\<lambda>(raw, pos, count, found). min (length raw) 200 - pos)") auto

definition encapsulation :: "bytes \<Rightarrow> scan_result" where
  "encapsulation raw = encap_loop raw 0 0 []"

subsection \<open>The first MP4 atom (lines 103-114)\<close>

text \<open>
  \<open>for i in range(min(len(raw), 200))\<close>: the first \<open>i\<close> at which ftyp or mdat stands
  sets \<open>video_start = i - 4\<close> (an integer: it is negative for \<open>i < 4\<close>) and leaves the
  loop; \<open>video_start\<close> stays \<open>None\<close> when there is none.
\<close>

definition signature_at :: "bytes \<Rightarrow> nat \<Rightarrow> bool" where
  "signature_at raw i = (slice raw i (i + 4) = ftyp \<or> slice raw i (i + 4) = mdat)"

fun scan_signature :: "bytes \<Rightarrow> nat list \<Rightarrow> int option" where
  "scan_signature raw [] = None"
| "scan_signature raw (i # rest) =
     (if signature_at raw i then Some (int i - 4) else scan_signature raw rest)"

definition find_video_start :: "bytes \<Rightarrow> int option" where
  "find_video_start raw = scan_signature raw [0..<min (length raw) 200]"

text \<open>
  \<open>if video_start and video_start > 0\<close>: \<open>None\<close> and 0 are both false in Python, so
  the atom is read only for a header that starts after the first byte of the value.
\<close>

record atom =
  atom_offset :: nat
  atom_size :: nat
  atom_type :: bytes

definition first_atom :: "bytes \<Rightarrow> atom option" where
  "first_atom raw =
     (case find_video_start raw of
        None \<Rightarrow> None
      | Some video_start \<Rightarrow>
          if video_start \<noteq> 0 \<and> video_start > 0 then
            (let start = nat video_start
             in Some \<lparr>atom_offset = start,
                      atom_size = from_bytes_big (slice raw start (start + 4)),
                      atom_type = slice raw (start + 4) (start + 8)\<rparr>)
          else None)"

subsection \<open>The H.264 profile and level (lines 117-126)\<close>

text \<open>
  \<open>profile_names.get(profile_idc, 'Unknown')\<close> over the dictionary of line 122.
\<close>

definition profile_names :: "(nat \<times> string) list" where
  "profile_names = [(66, ''Baseline''), (77, ''Main''), (100, ''High'')]"

definition profile_name_of :: "nat \<Rightarrow> string" where
  "profile_name_of profile_idc =
     (case map_of profile_names profile_idc of None \<Rightarrow> ''Unknown'' | Some name \<Rightarrow> name)"

text \<open>
  \<open>f"{level_idc / 10:.1f}"\<close>: \<open>level_idc\<close> is one byte, so the quotient has one
  decimal digit and the formatted text is the decimal numeral of \<open>level_idc div 10\<close>, a
  point, and the digit \<open>level_idc mod 10\<close>.
\<close>

definition digit :: "nat \<Rightarrow> char" where
  "digit d = ''0123456789'' ! d"

function decimal :: "nat \<Rightarrow> string" where
  "decimal n = (if n < 10 then [digit n] else decimal (n div 10) @ [digit (n mod 10)])"
  by pat_completeness auto
termination
  by (relation "measure (\<lambda>n. n)") auto

definition format_level :: "nat \<Rightarrow> string" where
  "format_level level_idc = decimal (level_idc div 10) @ ''.'' @ [digit (level_idc mod 10)]"

record avc_config =
  profile_name :: string
  profile_number :: nat
  level_number :: nat
  level_text :: string

text \<open>
  \<open>avc_pos = raw.find(b'avcC')\<close>, then \<open>if avc_pos > 0\<close>: the two indexed reads come
  before both prints, so an IndexError of either leaves nothing printed; the else
  branch prints that no avcC box was found, here \<open>Inr None\<close>.
\<close>

definition read_avc :: "bytes \<Rightarrow> error + avc_config option" where
  "read_avc raw =
     (let avc_pos = bytes_find raw avcC
      in if avc_pos > 0 then
           (case byte_at raw (nat (avc_pos + 5)) of
              Inl e \<Rightarrow> Inl e
            | Inr profile_idc \<Rightarrow>
                (case byte_at raw (nat (avc_pos + 7)) of
                   Inl e \<Rightarrow> Inl e
                 | Inr level_idc \<Rightarrow>
                     Inr (Some \<lparr>profile_name = profile_name_of profile_idc,
                                profile_number = profile_idc,
                                level_number = level_idc,
                                level_text = format_level level_idc\<rparr>)))
         else Inr None)"

subsection \<open>The video stream check (lines 99-128) and the whole analysis\<close>

text \<open>
  The check runs inside \<open>try\<close>; \<open>except Exception\<close> prints the error and the function
  returns normally. The atom line is printed before the avcC read, so it stays in the
  report when that read raises. The avcC read is nested in the branch that found an
  atom. With no PixelData element, \<open>dcm[(0x7fe0, 0x0010)]\<close> raises KeyError.
\<close>

record video_report =
  first_mp4_atom :: "atom option"
  h264 :: "avc_config option"
  avc_not_found :: bool
  video_error :: "error option"

definition video_stream_check :: "bytes option \<Rightarrow> video_report" where
  "video_stream_check pixel_data =
     (case pixel_data of
        None \<Rightarrow> \<lparr>first_mp4_atom = None, h264 = None, avc_not_found = False,
                 video_error = Some KeyError\<rparr>
      | Some raw \<Rightarrow>
          (case first_atom raw of
             None \<Rightarrow> \<lparr>first_mp4_atom = None, h264 = None, avc_not_found = False,
                      video_error = None\<rparr>
           | Some a \<Rightarrow>
               (case read_avc raw of
                  Inl e \<Rightarrow> \<lparr>first_mp4_atom = Some a, h264 = None, avc_not_found = False,
                            video_error = Some e\<rparr>
                | Inr None \<Rightarrow> \<lparr>first_mp4_atom = Some a, h264 = None, avc_not_found = True,
                               video_error = None\<rparr>
                | Inr (Some c) \<Rightarrow> \<lparr>first_mp4_atom = Some a, h264 = Some c,
                                   avc_not_found = False, video_error = None\<rparr>)))"

record report =
  no_pixel_data :: bool
  signature :: "(int \<times> bytes) option"
  encapsulated :: scan_result
  video :: video_report

definition analyze_pixel_data :: "bytes option \<Rightarrow> report" where
  "analyze_pixel_data pixel_data =
     (case pixel_data of
        None \<Rightarrow> \<lparr>no_pixel_data = True, signature = None,
                 encapsulated = \<lparr>end_pos = 0, item_count = 0, items = [], delimiter = None\<rparr>,
                 video = video_stream_check None\<rparr>
      | Some raw \<Rightarrow> \<lparr>no_pixel_data = False, signature = mp4_signature raw,
                     encapsulated = encapsulation raw,
                     video = video_stream_check (Some raw)\<rparr>)"

section \<open>Facts about the loops and the built-ins\<close>

text \<open>
  The equations of the two non-structural recursions rewrite their own right-hand
  sides, so they leave the simplifier's default set; each branch of the loop gets an
  equation of its own below.
\<close>

declare encap_loop.simps [simp del]

declare decimal.simps [simp del]

lemma scan_signature_first:
  "\<forall>j \<in> set ys. \<not> signature_at raw j \<Longrightarrow> signature_at raw i \<Longrightarrow>
   scan_signature raw (ys @ i # zs) = Some (int i - 4)"
  by (induction ys) auto

lemma upt_split_at: "i < n \<Longrightarrow> [0..<n] = [0..<i] @ i # [Suc i..<n]"
  using upt_add_eq_append [of 0 i "n - i"] by (simp add: upt_conv_Cons)

lemma find_video_start_first:
  assumes "i < min (length raw) 200" and "signature_at raw i"
    and "\<forall>j<i. \<not> signature_at raw j"
  shows "find_video_start raw = Some (int i - 4)"
proof -
  have "\<forall>j \<in> set [0..<i]. \<not> signature_at raw j"
    using assms(3) by simp
  then have "scan_signature raw ([0..<i] @ i # [Suc i..<min (length raw) 200]) = Some (int i - 4)"
    using assms(2) by (rule scan_signature_first)
  then show ?thesis
    using upt_split_at [OF assms(1)] by (simp add: find_video_start_def)
qed

lemma find_at_first:
  "k < length raw \<Longrightarrow> take (length sub) (drop k raw) = sub \<Longrightarrow>
   \<forall>j<k. take (length sub) (drop j raw) \<noteq> sub \<Longrightarrow>
   find_at sub n raw = int (n + k)"
proof (induction raw arbitrary: n k)
  case Nil
  then show ?case by simp
next
  case (Cons x xs)
  show ?case
  proof (cases k)
    case 0
    with Cons.prems show ?thesis by simp
  next
    case (Suc k')
    have miss: "take (length sub) (x # xs) \<noteq> sub"
      using Cons.prems(3) Suc by (metis drop0 zero_less_Suc)
    have later: "\<forall>j<k'. take (length sub) (drop j xs) \<noteq> sub"
    proof (intro allI impI)
      fix j assume "j < k'"
      then have "Suc j < k" using Suc by simp
      then have "take (length sub) (drop (Suc j) (x # xs)) \<noteq> sub"
        using Cons.prems(3) by blast
      then show "take (length sub) (drop j xs) \<noteq> sub" by simp
    qed
    have "find_at sub (Suc n) xs = int (Suc n + k')"
      using Cons.IH [of k' "Suc n"] Cons.prems(1,2) Suc later by simp
    then show ?thesis using miss Suc by simp
  qed
qed

lemma from_bytes_little_bound: "from_bytes_little bs < 256 ^ length bs"
proof (induction bs)
  case Nil
  then show ?case by (simp add: from_bytes_little_def)
next
  case (Cons b bs)
  have "unat b < 256" using unsigned_less [of b] by simp
  moreover have "from_bytes_little (b # bs) = unat b + 256 * from_bytes_little bs"
    by (simp add: from_bytes_little_def)
  moreover have "from_bytes_little bs + 1 \<le> 256 ^ length bs"
    using Cons.IH by simp
  then have "256 * (from_bytes_little bs + 1) \<le> 256 * 256 ^ length bs"
    by (rule mult_le_mono2)
  ultimately show ?case by simp
qed

lemma from_bytes_little_u32: "length bs \<le> 4 \<Longrightarrow> from_bytes_little bs < 2 ^ 32"
proof -
  assume "length bs \<le> 4"
  then have "(256::nat) ^ length bs \<le> 256 ^ 4"
    by (intro power_increasing) simp_all
  then show ?thesis
    using from_bytes_little_bound [of bs] by simp
qed

lemma slice_length_le: "length (slice xs lo hi) \<le> hi - lo"
  by (simp add: slice_def)

lemma slice_full: "0 < n \<Longrightarrow> length (slice xs lo (lo + n)) = n \<Longrightarrow> lo + n \<le> length xs"
  by (simp add: slice_def min_def split: if_splits)

lemma encap_loop_stop:
  assumes "\<not> pos < min (length raw) 200"
  shows "encap_loop raw pos count found =
     \<lparr>end_pos = pos, item_count = count, items = found, delimiter = None\<rparr>"
  by (subst encap_loop.simps) (simp only: assms if_False)

lemma encap_loop_open_item:
  assumes "pos < min (length raw) 200" and "slice raw pos (pos + 4) = item_tag"
    and "from_bytes_little (slice raw (pos + 4) (pos + 8)) = len"
    and "len = 0 \<or> len = 0xffffffff"
  shows "encap_loop raw pos count found =
     encap_loop raw (pos + 8) (count + 1)
       (found @ [\<lparr>item_index = count, item_offset = pos, item_length = len\<rparr>])"
proof (cases "len = 0")
  case True
  show ?thesis
    by (subst encap_loop.simps) (simp only: assms(1-3) True if_True Let_def simp_thms)
next
  case False
  with assms(4) have "len = 0xffffffff" by simp
  with False show ?thesis
    by (subst encap_loop.simps) (simp only: assms(1-3) if_True if_False Let_def simp_thms)
qed

lemma encap_loop_data_item:
  assumes "pos < min (length raw) 200" and "slice raw pos (pos + 4) = item_tag"
    and "from_bytes_little (slice raw (pos + 4) (pos + 8)) = len"
    and "len \<noteq> 0" and "len \<noteq> 0xffffffff"
  shows "encap_loop raw pos count found =
     \<lparr>end_pos = pos + 8 + len, item_count = count + 1,
      items = found @ [\<lparr>item_index = count, item_offset = pos, item_length = len\<rparr>],
      delimiter = None\<rparr>"
  by (subst encap_loop.simps) (simp only: assms if_True if_False Let_def simp_thms)

lemma encap_loop_delimiter:
  assumes "pos < min (length raw) 200" and "slice raw pos (pos + 4) \<noteq> item_tag"
    and "slice raw pos (pos + 4) = sequence_delimiter"
  shows "encap_loop raw pos count found =
     \<lparr>end_pos = pos, item_count = count, items = found, delimiter = Some pos\<rparr>"
  using assms(2) unfolding assms(3)
  by (subst encap_loop.simps) (simp only: assms(1,3) if_True if_False simp_thms)

lemma encap_loop_skip:
  assumes "pos < min (length raw) 200" and "slice raw pos (pos + 4) \<noteq> item_tag"
    and "slice raw pos (pos + 4) \<noteq> sequence_delimiter"
  shows "encap_loop raw pos count found = encap_loop raw (pos + 1) count found"
  by (subst encap_loop.simps) (simp only: assms if_True if_False)

lemma encap_loop_items:
  assumes "\<forall>it \<in> set found. P raw it"
    and "\<And>p c. p < min (length raw) 200 \<Longrightarrow> slice raw p (p + 4) = item_tag \<Longrightarrow>
           P raw \<lparr>item_index = c, item_offset = p,
              item_length = from_bytes_little (slice raw (p + 4) (p + 8))\<rparr>"
  shows "\<forall>it \<in> set (items (encap_loop raw pos count found)). P raw it"
  using assms
proof (induction raw pos count found rule: encap_loop.induct)
  case (1 raw pos count found)
  note step = "1.prems"(2)
  show ?case
  proof (cases "pos < min (length raw) 200")
    case False
    then show ?thesis using "1.prems"(1) by (simp add: encap_loop_stop)
  next
    case in_range: True
    show ?thesis
    proof (cases "slice raw pos (pos + 4) = item_tag")
      case tag: True
      define len where "len = from_bytes_little (slice raw (pos + 4) (pos + 8))"
      define found' where
        "found' = found @ [\<lparr>item_index = count, item_offset = pos, item_length = len\<rparr>]"
      have P': "\<forall>it \<in> set found'. P raw it"
        using "1.prems"(1) step [OF in_range tag, of count] by (simp add: found'_def len_def)
      consider "len = 0" | "len \<noteq> 0" "len = 0xffffffff" | "len \<noteq> 0" "len \<noteq> 0xffffffff"
        by blast
      then show ?thesis
      proof cases
        case 1
        have "\<forall>it \<in> set (items (encap_loop raw (pos + 8) (count + 1) found')). P raw it"
          using "1.IH"(1) [OF in_range tag len_def found'_def 1 P' step] by blast
        then show ?thesis
          using encap_loop_open_item [OF in_range tag len_def [symmetric], of count found] 1
          by (simp add: found'_def)
      next
        case 2
        have "\<forall>it \<in> set (items (encap_loop raw (pos + 8) (count + 1) found')). P raw it"
          using "1.IH"(2) [OF in_range tag len_def found'_def 2 P' step] by blast
        then show ?thesis
          using encap_loop_open_item [OF in_range tag len_def [symmetric], of count found] 2
          by (simp add: found'_def)
      next
        case 3
        then show ?thesis
          using encap_loop_data_item [OF in_range tag len_def [symmetric] 3, of count found] P'
          by (simp add: found'_def)
      qed
    next
      case no_tag: False
      show ?thesis
      proof (cases "slice raw pos (pos + 4) = sequence_delimiter")
        case True
        then show ?thesis
          using in_range no_tag "1.prems"(1) by (simp add: encap_loop_delimiter)
      next
        case False
        have "\<forall>it \<in> set (items (encap_loop raw (pos + 1) count found)). P raw it"
          using "1.IH"(3) [OF in_range no_tag False "1.prems"(1) step] by blast
        then show ?thesis
          using in_range no_tag False by (simp add: encap_loop_skip)
      qed
    qed
  qed
qed

lemma first_atom_at:
  assumes "i < min (length raw) 200" and "signature_at raw i"
    and "\<forall>j<i. \<not> signature_at raw j"
  shows "first_atom raw =
     (if 5 \<le> i then
        Some \<lparr>atom_offset = i - 4, atom_size = from_bytes_big (slice raw (i - 4) i),
              atom_type = slice raw i (i + 4)\<rparr>
      else None)"
proof (cases "5 \<le> i")
  case True
  then have "nat (int i - 4) = i - 4" and "i - 4 + 4 = i" and "i - 4 + 8 = i + 4"
    and "int i - 4 \<noteq> 0" and "int i - 4 > 0"
    by simp_all
  then show ?thesis
    using True find_video_start_first [OF assms]
    by (simp add: first_atom_def Let_def add.commute)
next
  case False
  then have "\<not> (int i - 4 \<noteq> 0 \<and> int i - 4 > 0)" by simp
  then show ?thesis
    using False find_video_start_first [OF assms] by (simp add: first_atom_def)
qed

lemma bytes_find_first:
  assumes "k < length raw" and "slice raw k (k + length sub) = sub"
    and "\<forall>j<k. slice raw j (j + length sub) \<noteq> sub"
  shows "bytes_find raw sub = int k"
  using find_at_first [of k raw sub 0] assms by (simp add: bytes_find_def slice_def)

lemma avcC_length: "length avcC = 4"
  by (simp add: avcC_def)

lemma avc_pos_first:
  assumes "slice raw k (k + 4) = avcC" and "\<forall>j<k. slice raw j (j + 4) \<noteq> avcC"
  shows "bytes_find raw avcC = int k"
proof -
  have "length (slice raw k (k + 4)) = 4" using assms(1) avcC_length by simp
  then have "k + 4 \<le> length raw" using slice_full [of 4 raw k] by simp
  then have "k < length raw" by simp
  then show ?thesis
    using bytes_find_first [of k raw avcC] assms by (simp add: avcC_length)
qed

lemma video_error_cases:
  "video_error (video_stream_check (Some raw)) =
     (if first_atom raw \<noteq> None \<and> 0 < bytes_find raw avcC
         \<and> int (length raw) \<le> bytes_find raw avcC + 7
      then Some IndexError else None)"
proof (cases "first_atom raw")
  case None
  then show ?thesis by (simp add: video_stream_check_def)
next
  case (Some a)
  show ?thesis
  proof (cases "0 < bytes_find raw avcC")
    case False
    then have "read_avc raw = Inr None" by (simp add: read_avc_def)
    then show ?thesis using Some False by (simp add: video_stream_check_def)
  next
    case True
    show ?thesis
    proof (cases "int (length raw) \<le> bytes_find raw avcC + 7")
      case short: True
      then have "\<not> nat (bytes_find raw avcC + 7) < length raw" by linarith
      then have "read_avc raw = Inl IndexError"
        using True by (simp add: read_avc_def byte_at_def Let_def)
      then show ?thesis using Some True short by (simp add: video_stream_check_def)
    next
      case long: False
      have "nat (bytes_find raw avcC + 7) < length raw"
        using True long by linarith
      moreover have "nat (bytes_find raw avcC + 5) < length raw"
        using True long by linarith
      ultimately have "\<exists>c. read_avc raw = Inr (Some c)"
        using True by (simp add: read_avc_def byte_at_def Let_def)
      then show ?thesis using Some long by (auto simp add: video_stream_check_def)
    qed
  qed
qed

lemma all_less_upt: "(\<forall>j<n. P j) \<longleftrightarrow> (\<forall>j \<in> set [0..<n]. P j)"
  by auto

lemma item_tag_length: "length item_tag = 4"
  by (simp add: item_tag_def)

lemma scan_signature_Some:
  "scan_signature raw xs = Some v \<Longrightarrow> \<exists>i \<in> set xs. signature_at raw i \<and> v = int i - 4"
  by (induction xs) (auto split: if_splits)

lemma signature_at_inside: "signature_at raw i \<Longrightarrow> i + 4 \<le> length raw"
proof -
  assume "signature_at raw i"
  then have "length (slice raw i (i + 4)) = 4"
    by (auto simp add: signature_at_def ftyp_def mdat_def)
  then show ?thesis using slice_full [of 4 raw i] by simp
qed

lemma first_atom_min_length:
  assumes "first_atom raw = Some a"
  shows "9 \<le> length raw"
proof -
  obtain v where v: "find_video_start raw = Some v" and "0 < v"
    using assms by (auto simp add: first_atom_def split: option.splits if_splits)
  then obtain i where "signature_at raw i" and "v = int i - 4"
    using scan_signature_Some [of raw "[0..<min (length raw) 200]" v]
    by (auto simp add: find_video_start_def)
  then have "5 \<le> i" and "i + 4 \<le> length raw"
    using \<open>0 < v\<close> signature_at_inside [of raw i] by simp_all
  then show ?thesis by simp
qed

section \<open>The claims\<close>

subsection \<open>C1: the analysis returns for every buffer\<close>

text \<open>
  Claim C1, as amended. For every byte buffer the analysis returns a report: the
  encapsulation walk terminates (its measure is the distance of \<open>pos\<close> to the scan
  limit) and the two other passes are structural. The walk and the atom search read the
  buffer through slices only. The avcC pass indexes the buffer without a bounds check,
  so one fault is possible: when an atom was found, avcC is first found at a position
  \<open>avc_pos > 0\<close> and \<open>avc_pos + 7 \<ge> len(raw)\<close>, the index is out of range and raises
  IndexError, which the handler of the video check catches and records. The report
  carries an error in exactly that case.
\<close>

theorem analysis_error_iff_truncated_avc:
  "video_error (video (analyze_pixel_data (Some raw))) =
     (if first_atom raw \<noteq> None \<and> 0 < bytes_find raw avcC
         \<and> int (length raw) \<le> bytes_find raw avcC + 7
      then Some IndexError else None)"
  by (simp add: analyze_pixel_data_def video_error_cases)

theorem analysis_error_iff_truncated_avc_witness:
  "video_error (video (analyze_pixel_data (Some []))) = None"
  using analysis_error_iff_truncated_avc [of "[]"]
  by (simp add: first_atom_def find_video_start_def)

text \<open>
  The claim as stated (no out-of-bounds access, no fault on any input) fails on the
  13-byte buffer \<open>00 00 00 00 08 ftyp avcC\<close>: the atom is found at offset 1, avcC at
  9, and \<open>raw[14]\<close> is out of range.
\<close>

theorem analysis_out_of_range_example:
  "read_avc [0, 0, 0, 0, 8, 0x66, 0x74, 0x79, 0x70, 0x61, 0x76, 0x63, 0x43] = Inl IndexError
   \<and> video_error (video (analyze_pixel_data
        (Some [0, 0, 0, 0, 8, 0x66, 0x74, 0x79, 0x70, 0x61, 0x76, 0x63, 0x43]))) = Some IndexError"
  by (simp add: analyze_pixel_data_def video_stream_check_def first_atom_def
      find_video_start_def signature_at_def slice_def ftyp_def mdat_def upt_rec
      from_bytes_big_def read_avc_def bytes_find_def avcC_def byte_at_def)

subsection \<open>C2: when the avcC pass runs\<close>

text \<open>
  Claim C2, as amended. The avcC pass is nested in the branch of the video check that
  found an ftyp or mdat atom whose header starts after offset 0. The report carries an
  AVC configuration exactly when such an atom was found and the avcC pass over the full
  buffer yields one; what the encapsulation walk found plays no part.
\<close>

theorem avc_reported_iff_atom_found:
  "h264 (video (analyze_pixel_data (Some raw))) = Some c
     \<longleftrightarrow> first_atom raw \<noteq> None \<and> read_avc raw = Inr (Some c)"
  by (auto simp add: analyze_pixel_data_def video_stream_check_def
      split: option.splits sum.splits)

theorem avc_reported_iff_atom_found_witness:
  "h264 (video (analyze_pixel_data
     (Some [0, 0, 0, 0, 8, 0x66, 0x74, 0x79, 0x70, 0x61, 0x76, 0x63, 0x43, 1, 100, 0, 41]))) =
     Some \<lparr>profile_name = ''High'', profile_number = 100, level_number = 41,
           level_text = ''4.1''\<rparr>"
  using avc_reported_iff_atom_found
    [of "[0, 0, 0, 0, 8, 0x66, 0x74, 0x79, 0x70, 0x61, 0x76, 0x63, 0x43, 1, 100, 0, 41]"
        "\<lparr>profile_name = ''High'', profile_number = 100, level_number = 41,
          level_text = ''4.1''\<rparr>"]
  by (simp add: first_atom_def find_video_start_def signature_at_def slice_def ftyp_def
      mdat_def upt_rec read_avc_def bytes_find_def avcC_def byte_at_def profile_name_of_def
      profile_names_def format_level_def decimal.simps digit_def)

text \<open>
  The claim as stated (the avcC record is never omitted for want of an atom) fails on
  \<open>00 avcC 01 64 00 29\<close>: the avcC pass alone yields High, level 4.1, and the report
  has no AVC configuration because no ftyp or mdat occurs.
\<close>

theorem avc_omitted_without_atom_example:
  "read_avc [0, 0x61, 0x76, 0x63, 0x43, 1, 100, 0, 41] =
     Inr (Some \<lparr>profile_name = ''High'', profile_number = 100, level_number = 41,
                level_text = ''4.1''\<rparr>)
   \<and> first_atom [0, 0x61, 0x76, 0x63, 0x43, 1, 100, 0, 41] = None
   \<and> h264 (video (analyze_pixel_data (Some [0, 0x61, 0x76, 0x63, 0x43, 1, 100, 0, 41]))) = None"
  by (simp add: analyze_pixel_data_def video_stream_check_def first_atom_def
      find_video_start_def signature_at_def slice_def ftyp_def mdat_def upt_rec
      read_avc_def bytes_find_def avcC_def byte_at_def profile_name_of_def profile_names_def
      format_level_def decimal.simps digit_def)

subsection \<open>C3: the header in front of the first ftyp or mdat\<close>

text \<open>
  Claim C3, as amended. Let ftyp or mdat first occur at index \<open>i\<close> inside the search
  window (\<open>i < min(len(raw), 200)\<close>). For \<open>i \<ge> 5\<close> the atom is reported with offset
  \<open>i - 4\<close>, with the big-endian value of \<open>raw[i-4:i]\<close> as its size and with the tag as
  its type. For \<open>i \<le> 4\<close> no atom is reported: \<open>video_start\<close> is then 0 or negative
  and the guard \<open>video_start and video_start > 0\<close> fails. So a buffer that begins
  \<open>00 00 00 00 18 ftyp\<close> gives offset 1, size 24 and type ftyp.
\<close>

theorem first_atom_header:
  assumes "i < min (length raw) 200" and "signature_at raw i"
    and "\<forall>j<i. \<not> signature_at raw j"
  shows "first_atom raw =
     (if 5 \<le> i then
        Some \<lparr>atom_offset = i - 4, atom_size = from_bytes_big (slice raw (i - 4) i),
              atom_type = slice raw i (i + 4)\<rparr>
      else None)"
  using assms by (rule first_atom_at)

theorem first_atom_header_witness:
  "(5::nat) < min (length [0, 0, 0, 0, 0x18, 0x66, 0x74, 0x79, 0x70 :: byte]) 200
   \<and> signature_at [0, 0, 0, 0, 0x18, 0x66, 0x74, 0x79, 0x70] 5
   \<and> first_atom [0, 0, 0, 0, 0x18, 0x66, 0x74, 0x79, 0x70] =
       Some \<lparr>atom_offset = 1, atom_size = 24, atom_type = ftyp\<rparr>"
proof -
  let ?buf = "[0, 0, 0, 0, 0x18, 0x66, 0x74, 0x79, 0x70] :: bytes"
  have h1: "5 < min (length ?buf) 200" by simp
  have h2: "signature_at ?buf 5" by (simp add: signature_at_def slice_def ftyp_def)
  have h3: "\<forall>j<5. \<not> signature_at ?buf j"
    by (simp add: all_less_upt upt_rec signature_at_def slice_def ftyp_def mdat_def)
  show ?thesis
    using h1 h2 first_atom_header [OF h1 h2 h3]
    by (simp add: slice_def from_bytes_big_def ftyp_def)
qed

text \<open>
  The claim as stated (\<open>i \<ge> 4\<close>, and offset 0, size 24 for the buffer
  \<open>00 00 00 18 ftyp\<close>) fails there: \<open>video_start\<close> is 0, which Python takes as
  false, and nothing is reported.
\<close>

theorem first_atom_header_at_offset_zero_example:
  "find_video_start [0, 0, 0, 0x18, 0x66, 0x74, 0x79, 0x70] = Some 0
   \<and> first_atom [0, 0, 0, 0x18, 0x66, 0x74, 0x79, 0x70] = None"
  by (simp add: first_atom_def find_video_start_def signature_at_def slice_def ftyp_def
      mdat_def upt_rec)

subsection \<open>C4: what is known of a recorded item\<close>

text \<open>
  Claim C4, as amended. Every item the walk records starts inside the scan window and
  has its four tag bytes inside the buffer; its length is the little-endian value of
  the bytes of \<open>raw[offset+4:offset+8]\<close> that exist, and is below \<open>2^32\<close>. The walk
  does not compare the declared length with the bytes that remain.
\<close>

theorem items_within_scan_window:
  "\<forall>it \<in> set (items (encapsulation raw)).
     item_offset it < min (length raw) 200
     \<and> item_offset it + 4 \<le> length raw
     \<and> item_length it = from_bytes_little (slice raw (item_offset it + 4) (item_offset it + 8))
     \<and> item_length it < 2 ^ 32"
  unfolding encapsulation_def
proof (rule encap_loop_items)
  show "\<forall>it \<in> set []. item_offset it < min (length raw) 200
     \<and> item_offset it + 4 \<le> length raw
     \<and> item_length it = from_bytes_little (slice raw (item_offset it + 4) (item_offset it + 8))
     \<and> item_length it < 2 ^ 32"
    by simp
next
  fix p c
  assume in_range: "p < min (length raw) 200" and tag: "slice raw p (p + 4) = item_tag"
  let ?it = "\<lparr>item_index = c, item_offset = p,
               item_length = from_bytes_little (slice raw (p + 4) (p + 8))\<rparr>"
  have "length (slice raw p (p + 4)) = 4" using tag item_tag_length by simp
  then have inside: "p + 4 \<le> length raw" using slice_full [of 4 raw p] by simp
  have "length (slice raw (p + 4) (p + 8)) \<le> 4"
    using slice_length_le [of raw "p + 4" "p + 8"] by simp
  then have "from_bytes_little (slice raw (p + 4) (p + 8)) < 2 ^ 32"
    by (rule from_bytes_little_u32)
  then show "item_offset ?it < min (length raw) 200
     \<and> item_offset ?it + 4 \<le> length raw
     \<and> item_length ?it = from_bytes_little (slice raw (item_offset ?it + 4) (item_offset ?it + 8))
     \<and> item_length ?it < 2 ^ 32"
    using in_range inside by simp
qed

theorem items_within_scan_window_witness:
  "items (encapsulation [0xfe, 0xff, 0x00, 0xe0, 5, 0, 0, 0]) =
     [\<lparr>item_index = 0, item_offset = 0, item_length = 5\<rparr>]
   \<and> (0::nat) < min (length [0xfe, 0xff, 0x00, 0xe0, 5, 0, 0, 0 :: byte]) 200
   \<and> (0::nat) + 4 \<le> length [0xfe, 0xff, 0x00, 0xe0, 5, 0, 0, 0 :: byte]
   \<and> (5::nat) = from_bytes_little (slice [0xfe, 0xff, 0x00, 0xe0, 5, 0, 0, 0] (0 + 4) (0 + 8))
   \<and> (5::nat) < 2 ^ 32"
proof -
  let ?buf = "[0xfe, 0xff, 0x00, 0xe0, 5, 0, 0, 0] :: bytes"
  have its: "items (encapsulation ?buf) = [\<lparr>item_index = 0, item_offset = 0, item_length = 5\<rparr>]"
    by (simp add: encapsulation_def encap_loop.simps slice_def item_tag_def
        from_bytes_little_def)
  show ?thesis
    using items_within_scan_window [of ?buf] unfolding its by simp
qed

text \<open>
  The claim as stated (\<open>offset + 8 + length \<le> len(raw)\<close> for every item whose length
  is not \<open>0xFFFFFFFF\<close>) fails on the 8-byte buffer \<open>FE FF 00 E0 05 00 00 00\<close>: the
  item is recorded with length 5 and no payload byte follows.
\<close>

theorem item_payload_past_end_example:
  "items (encapsulation [0xfe, 0xff, 0x00, 0xe0, 5, 0, 0, 0]) =
     [\<lparr>item_index = 0, item_offset = 0, item_length = 5\<rparr>]
   \<and> (5::nat) \<noteq> 0xffffffff
   \<and> \<not> (0 + 8 + 5 \<le> length [0xfe, 0xff, 0x00, 0xe0, 5, 0, 0, 0 :: byte])"
  by (simp add: encapsulation_def encap_loop.simps slice_def item_tag_def
      from_bytes_little_def)

subsection \<open>C5: an avcC tag too close to the end\<close>

text \<open>
  Claim C5, as amended. Let avcC first occur at \<open>k\<close> with \<open>k + 7 \<ge> len(raw)\<close>. When
  the video check found an atom (the buffer then has at least nine bytes, so \<open>k > 0\<close>),
  the read of \<open>raw[k + 5]\<close> or of \<open>raw[k + 7]\<close> is out of range and raises IndexError
  before any profile or level is printed; the handler records the error, and the report
  has the atom, no AVC configuration and no "avcC not found" line. When the video check
  found no atom, the avcC pass is not run: the report has no configuration, no "avcC not
  found" line and no error.
\<close>

theorem truncated_avc_outcome:
  assumes "slice raw k (k + 4) = avcC" and "\<forall>j<k. slice raw j (j + 4) \<noteq> avcC"
    and "length raw \<le> k + 7"
  shows "video (analyze_pixel_data (Some raw)) =
     (case first_atom raw of
        None \<Rightarrow> \<lparr>first_mp4_atom = None, h264 = None, avc_not_found = False,
                 video_error = None\<rparr>
      | Some a \<Rightarrow> \<lparr>first_mp4_atom = Some a, h264 = None, avc_not_found = False,
                   video_error = Some IndexError\<rparr>)"
proof (cases "first_atom raw")
  case None
  then show ?thesis by (simp add: analyze_pixel_data_def video_stream_check_def)
next
  case (Some a)
  have pos: "bytes_find raw avcC = int k"
    using assms(1,2) by (rule avc_pos_first)
  have "9 \<le> length raw" using Some by (rule first_atom_min_length)
  then have "0 < k" using assms(3) by simp
  moreover have "\<not> nat (int k + 7) < length raw" using assms(3) by simp
  ultimately have "read_avc raw = Inl IndexError"
    by (simp add: read_avc_def pos byte_at_def Let_def split: sum.splits)
  then show ?thesis
    using Some by (simp add: analyze_pixel_data_def video_stream_check_def)
qed

theorem truncated_avc_outcome_witness:
  "slice [0, 0, 0, 0, 8, 0x66, 0x74, 0x79, 0x70, 0x61, 0x76, 0x63, 0x43] 9 (9 + 4) = avcC
   \<and> length [0, 0, 0, 0, 8, 0x66, 0x74, 0x79, 0x70, 0x61, 0x76, 0x63, 0x43 :: byte] \<le> 9 + 7
   \<and> video (analyze_pixel_data
        (Some [0, 0, 0, 0, 8, 0x66, 0x74, 0x79, 0x70, 0x61, 0x76, 0x63, 0x43])) =
       \<lparr>first_mp4_atom = Some \<lparr>atom_offset = 1, atom_size = 8, atom_type = ftyp\<rparr>,
        h264 = None, avc_not_found = False, video_error = Some IndexError\<rparr>"
proof -
  let ?buf = "[0, 0, 0, 0, 8, 0x66, 0x74, 0x79, 0x70, 0x61, 0x76, 0x63, 0x43] :: bytes"
  have h1: "slice ?buf 9 (9 + 4) = avcC" by (simp add: slice_def avcC_def)
  have h2: "\<forall>j<9. slice ?buf j (j + 4) \<noteq> avcC"
    by (simp add: all_less_upt upt_rec slice_def avcC_def)
  have h3: "length ?buf \<le> 9 + 7" by simp
  have atom: "first_atom ?buf = Some \<lparr>atom_offset = 1, atom_size = 8, atom_type = ftyp\<rparr>"
    by (simp add: first_atom_def find_video_start_def signature_at_def slice_def ftyp_def
        mdat_def upt_rec from_bytes_big_def)
  show ?thesis
    using h1 h3 truncated_avc_outcome [OF h1 h2 h3] unfolding atom by simp
qed

text \<open>
  The claim as stated (such a buffer yields absence, never an out-of-bounds read or a
  raised fault) fails on the 15-byte buffer \<open>00 00 00 00 10 mdat avcC 01 64\<close>: the atom
  is found at offset 1, avcC at 9, \<open>raw[14]\<close> is read and \<open>raw[16]\<close> is out of range;
  the analysis records the IndexError.
\<close>

theorem truncated_avc_index_error_example:
  "bytes_find [0, 0, 0, 0, 0x10, 0x6d, 0x64, 0x61, 0x74, 0x61, 0x76, 0x63, 0x43, 1, 100] avcC = 9
   \<and> int (length [0, 0, 0, 0, 0x10, 0x6d, 0x64, 0x61, 0x74, 0x61, 0x76, 0x63, 0x43, 1, 100 :: byte])
       \<le> 9 + 7
   \<and> video (analyze_pixel_data
        (Some [0, 0, 0, 0, 0x10, 0x6d, 0x64, 0x61, 0x74, 0x61, 0x76, 0x63, 0x43, 1, 100])) =
       \<lparr>first_mp4_atom = Some \<lparr>atom_offset = 1, atom_size = 16, atom_type = mdat\<rparr>,
        h264 = None, avc_not_found = False, video_error = Some IndexError\<rparr>"
  by (simp add: analyze_pixel_data_def video_stream_check_def first_atom_def
      find_video_start_def signature_at_def slice_def ftyp_def mdat_def upt_rec
      from_bytes_big_def read_avc_def bytes_find_def avcC_def byte_at_def)

subsection \<open>C6: a size field of 1\<close>

text \<open>
  Claim C6, as amended. When the four bytes in front of the first ftyp or mdat (at
  \<open>i \<ge> 5\<close> inside the search window) spell 1, the atom is reported with size 1: the
  bytes after the tag are not read as a 64-bit size, and no header length is
  reported.
\<close>

theorem size_field_one_reported:
  assumes "i < min (length raw) 200" and "signature_at raw i"
    and "\<forall>j<i. \<not> signature_at raw j" and "5 \<le> i"
    and "from_bytes_big (slice raw (i - 4) i) = 1"
  shows "first_atom raw =
     Some \<lparr>atom_offset = i - 4, atom_size = 1, atom_type = slice raw i (i + 4)\<rparr>"
  using first_atom_at [OF assms(1-3)] assms(4,5) by simp

theorem size_field_one_reported_witness:
  "(5::nat) < min (length [0, 0, 0, 0, 1, 0x66, 0x74, 0x79, 0x70, 0, 0, 0, 0, 0, 0, 0, 0x20 :: byte]) 200
   \<and> signature_at [0, 0, 0, 0, 1, 0x66, 0x74, 0x79, 0x70, 0, 0, 0, 0, 0, 0, 0, 0x20] 5
   \<and> from_bytes_big (slice [0, 0, 0, 0, 1, 0x66, 0x74, 0x79, 0x70, 0, 0, 0, 0, 0, 0, 0, 0x20] 1 5) = 1
   \<and> first_atom [0, 0, 0, 0, 1, 0x66, 0x74, 0x79, 0x70, 0, 0, 0, 0, 0, 0, 0, 0x20] =
       Some \<lparr>atom_offset = 1, atom_size = 1, atom_type = ftyp\<rparr>"
proof -
  let ?buf = "[0, 0, 0, 0, 1, 0x66, 0x74, 0x79, 0x70, 0, 0, 0, 0, 0, 0, 0, 0x20] :: bytes"
  have h1: "5 < min (length ?buf) 200" by simp
  have h2: "signature_at ?buf 5" by (simp add: signature_at_def slice_def ftyp_def)
  have h3: "\<forall>j<5. \<not> signature_at ?buf j"
    by (simp add: all_less_upt upt_rec signature_at_def slice_def ftyp_def mdat_def)
  have h4: "(5::nat) \<le> 5" by simp
  have h5: "from_bytes_big (slice ?buf (5 - 4) 5) = 1"
    by (simp add: slice_def from_bytes_big_def)
  show ?thesis
    using h1 h2 h5 size_field_one_reported [OF h1 h2 h3 h4 h5]
    by (simp add: slice_def ftyp_def)
qed

text \<open>
  The claim as stated (the size reported is the 64-bit value of \<open>raw[i+4:i+12]\<close>, not
  1) fails on \<open>00 00 00 00 01 ftyp 00 00 00 00 00 00 00 20\<close>: the eight bytes after
  the tag spell 32 and the size reported is 1.
\<close>

theorem extended_size_not_read_example:
  "first_atom [0, 0, 0, 0, 1, 0x66, 0x74, 0x79, 0x70, 0, 0, 0, 0, 0, 0, 0, 0x20] =
     Some \<lparr>atom_offset = 1, atom_size = 1, atom_type = [0x66, 0x74, 0x79, 0x70]\<rparr>
   \<and> from_bytes_big
        (slice [0, 0, 0, 0, 1, 0x66, 0x74, 0x79, 0x70, 0, 0, 0, 0, 0, 0, 0, 0x20] 9 17) = 32"
  by (simp add: first_atom_def find_video_start_def signature_at_def slice_def ftyp_def
      mdat_def upt_rec from_bytes_big_def)

subsection \<open>C7: profile and level\<close>

text \<open>
  Claim C7, as amended. Let ftyp or mdat first occur at \<open>i \<ge> 5\<close> inside the search
  window, so that the video check finds an atom, and let avcC first occur at \<open>k \<ge> 1\<close>
  with \<open>k + 7 < len(raw)\<close>. The analysis reads \<open>profile_idc = raw[k + 5]\<close> and
  \<open>level_idc = raw[k + 7]\<close>, names the profile Baseline for 66, Main for 77, High for
  100 and Unknown for any other value, keeps the number itself, and prints the level as
  \<open>level_idc / 10\<close> with one decimal; no error is recorded. With \<open>raw[k + 5] = 100\<close>
  and \<open>raw[k + 7] = 41\<close> the report has High (100), level 4.1.
\<close>

theorem avc_profile_and_level:
  assumes "i < min (length raw) 200" and "signature_at raw i"
    and "\<forall>j<i. \<not> signature_at raw j" and "5 \<le> i"
    and "slice raw k (k + 4) = avcC" and "\<forall>j<k. slice raw j (j + 4) \<noteq> avcC"
    and "0 < k" and "k + 7 < length raw"
  shows "video (analyze_pixel_data (Some raw)) =
     \<lparr>first_mp4_atom =
        Some \<lparr>atom_offset = i - 4, atom_size = from_bytes_big (slice raw (i - 4) i),
              atom_type = slice raw i (i + 4)\<rparr>,
      h264 =
        Some \<lparr>profile_name =
                (if unat (raw ! (k + 5)) = 66 then ''Baseline''
                 else if unat (raw ! (k + 5)) = 77 then ''Main''
                 else if unat (raw ! (k + 5)) = 100 then ''High''
                 else ''Unknown''),
              profile_number = unat (raw ! (k + 5)),
              level_number = unat (raw ! (k + 7)),
              level_text = format_level (unat (raw ! (k + 7)))\<rparr>,
      avc_not_found = False, video_error = None\<rparr>"
proof -
  have atom: "first_atom raw =
      Some \<lparr>atom_offset = i - 4, atom_size = from_bytes_big (slice raw (i - 4) i),
            atom_type = slice raw i (i + 4)\<rparr>"
    using first_atom_at [OF assms(1-3)] assms(4) by simp
  have pos: "bytes_find raw avcC = int k"
    using assms(5,6) by (rule avc_pos_first)
  have "nat (int k + 5) = k + 5" and "nat (int k + 7) = k + 7"
    by simp_all
  moreover have "k + 5 < length raw" using assms(8) by simp
  ultimately have "read_avc raw =
     Inr (Some \<lparr>profile_name =
                  (if unat (raw ! (k + 5)) = 66 then ''Baseline''
                   else if unat (raw ! (k + 5)) = 77 then ''Main''
                   else if unat (raw ! (k + 5)) = 100 then ''High''
                   else ''Unknown''),
                profile_number = unat (raw ! (k + 5)),
                level_number = unat (raw ! (k + 7)),
                level_text = format_level (unat (raw ! (k + 7)))\<rparr>)"
    using assms(7,8)
    by (simp add: read_avc_def pos byte_at_def Let_def profile_name_of_def profile_names_def)
  then show ?thesis
    using atom by (simp add: analyze_pixel_data_def video_stream_check_def)
qed

theorem avc_profile_and_level_witness:
  "(5::nat) < min (length [0, 0, 0, 0, 0x18, 0x66, 0x74, 0x79, 0x70, 0,
                           0x61, 0x76, 0x63, 0x43, 1, 100, 0, 41 :: byte]) 200
   \<and> signature_at [0, 0, 0, 0, 0x18, 0x66, 0x74, 0x79, 0x70, 0,
                    0x61, 0x76, 0x63, 0x43, 1, 100, 0, 41] 5
   \<and> slice [0, 0, 0, 0, 0x18, 0x66, 0x74, 0x79, 0x70, 0,
             0x61, 0x76, 0x63, 0x43, 1, 100, 0, 41] 10 (10 + 4) = avcC
   \<and> 10 + 7 < length [0, 0, 0, 0, 0x18, 0x66, 0x74, 0x79, 0x70, 0,
                       0x61, 0x76, 0x63, 0x43, 1, 100, 0, 41 :: byte]
   \<and> video (analyze_pixel_data
        (Some [0, 0, 0, 0, 0x18, 0x66, 0x74, 0x79, 0x70, 0,
               0x61, 0x76, 0x63, 0x43, 1, 100, 0, 41])) =
       \<lparr>first_mp4_atom = Some \<lparr>atom_offset = 1, atom_size = 24, atom_type = ftyp\<rparr>,
        h264 = Some \<lparr>profile_name = ''High'', profile_number = 100, level_number = 41,
                     level_text = ''4.1''\<rparr>,
        avc_not_found = False, video_error = None\<rparr>"
proof -
  let ?buf = "[0, 0, 0, 0, 0x18, 0x66, 0x74, 0x79, 0x70, 0,
               0x61, 0x76, 0x63, 0x43, 1, 100, 0, 41] :: bytes"
  have h1: "5 < min (length ?buf) 200" by simp
  have h2: "signature_at ?buf 5" by (simp add: signature_at_def slice_def ftyp_def)
  have h3: "\<forall>j<5. \<not> signature_at ?buf j"
    by (simp add: all_less_upt upt_rec signature_at_def slice_def ftyp_def mdat_def)
  have h4: "(5::nat) \<le> 5" by simp
  have h5: "slice ?buf 10 (10 + 4) = avcC" by (simp add: slice_def avcC_def)
  have h6: "\<forall>j<10. slice ?buf j (j + 4) \<noteq> avcC"
    by (simp add: all_less_upt upt_rec slice_def avcC_def)
  have h7: "(0::nat) < 10" by simp
  have h8: "10 + 7 < length ?buf" by simp
  show ?thesis
    using h1 h2 h5 h8 avc_profile_and_level [OF h1 h2 h3 h4 h5 h6 h7 h8]
    by (simp add: slice_def from_bytes_big_def ftyp_def format_level_def decimal.simps
        digit_def)
qed

text \<open>
  The claim as stated (any buffer, any offset \<open>k\<close>) fails twice. On
  \<open>avcC 01 64 00 29 00 00 00 08 ftyp\<close> an atom is found at offset 8 and the avcC pass
  runs, but \<open>avc_pos\<close> is 0, the test \<open>avc_pos > 0\<close> fails and the analysis prints
  that no avcC box was found, although \<open>raw[5] = 100\<close> and \<open>raw[7] = 41\<close> are in
  range. On \<open>00 avcC 01 64 00 29 00\<close> avcC stands at 1 with both bytes in range, no
  ftyp or mdat occurs and the avcC pass is not run.
\<close>

theorem avc_not_decoded_example:
  "bytes_find [0x61, 0x76, 0x63, 0x43, 1, 100, 0, 41, 0, 0, 0, 8, 0x66, 0x74, 0x79, 0x70] avcC = 0
   \<and> [0x61, 0x76, 0x63, 0x43, 1, 100, 0, 41, 0, 0, 0, 8, 0x66, 0x74, 0x79, 0x70 :: byte] ! (0 + 5)
       = 100
   \<and> [0x61, 0x76, 0x63, 0x43, 1, 100, 0, 41, 0, 0, 0, 8, 0x66, 0x74, 0x79, 0x70 :: byte] ! (0 + 7)
       = 41
   \<and> video (analyze_pixel_data
        (Some [0x61, 0x76, 0x63, 0x43, 1, 100, 0, 41, 0, 0, 0, 8, 0x66, 0x74, 0x79, 0x70])) =
       \<lparr>first_mp4_atom = Some \<lparr>atom_offset = 8, atom_size = 8, atom_type = ftyp\<rparr>,
        h264 = None, avc_not_found = True, video_error = None\<rparr>
   \<and> bytes_find [0, 0x61, 0x76, 0x63, 0x43, 1, 100, 0, 41, 0] avcC = 1
   \<and> video (analyze_pixel_data (Some [0, 0x61, 0x76, 0x63, 0x43, 1, 100, 0, 41, 0])) =
       \<lparr>first_mp4_atom = None, h264 = None, avc_not_found = False, video_error = None\<rparr>"
  by (simp add: analyze_pixel_data_def video_stream_check_def first_atom_def
      find_video_start_def signature_at_def slice_def ftyp_def mdat_def upt_rec
      from_bytes_big_def read_avc_def bytes_find_def avcC_def byte_at_def)

subsection \<open>C8: the first item with a payload\<close>

text \<open>
  Claim C8. For a buffer that begins with the item tag, four bytes that spell a length
  \<open>L\<close> in little-endian order (\<open>L\<close> neither 0 nor \<open>0xFFFFFFFF\<close>) and \<open>L\<close> payload
  bytes, the walk records exactly one item, at offset 0 with length \<open>L\<close>, and leaves the
  loop with \<open>pos = 8 + L\<close>, whatever follows; \<open>raw[8:8 + L]\<close> is the payload.
\<close>

theorem first_data_item_recorded:
  assumes "length len_le = 4" and "from_bytes_little len_le = L"
    and "L \<noteq> 0" and "L \<noteq> 0xffffffff" and "length payload = L"
  shows "encapsulation (item_tag @ len_le @ payload @ rest) =
       \<lparr>end_pos = 8 + L, item_count = 1,
        items = [\<lparr>item_index = 0, item_offset = 0, item_length = L\<rparr>], delimiter = None\<rparr>
     \<and> slice (item_tag @ len_le @ payload @ rest) 8 (8 + L) = payload"
proof -
  let ?raw = "item_tag @ len_le @ payload @ rest"
  have in_range: "0 < min (length ?raw) 200" by (simp add: item_tag_length)
  have tag: "slice ?raw 0 (0 + 4) = item_tag"
    by (simp add: slice_def item_tag_length)
  have len: "from_bytes_little (slice ?raw (0 + 4) (0 + 8)) = L"
    using assms(1,2) by (simp add: slice_def item_tag_length)
  have "encap_loop ?raw 0 0 [] =
       \<lparr>end_pos = 0 + 8 + L, item_count = 0 + 1,
        items = [] @ [\<lparr>item_index = 0, item_offset = 0, item_length = L\<rparr>], delimiter = None\<rparr>"
    using in_range tag len assms(3,4) by (rule encap_loop_data_item)
  moreover have "slice ?raw 8 (8 + L) = payload"
    using assms(1,5) by (simp add: slice_def item_tag_length)
  ultimately show ?thesis by (simp add: encapsulation_def)
qed

theorem first_data_item_recorded_witness:
  "length [4, 0, 0, 0 :: byte] = 4 \<and> from_bytes_little [4, 0, 0, 0] = 4
   \<and> (4::nat) \<noteq> 0 \<and> (4::nat) \<noteq> 0xffffffff \<and> length [1, 2, 3, 4 :: byte] = 4
   \<and> encapsulation [0xfe, 0xff, 0x00, 0xe0, 4, 0, 0, 0, 1, 2, 3, 4,
                     0xfe, 0xff, 0x00, 0xe0, 1, 0, 0, 0, 9] =
       \<lparr>end_pos = 12, item_count = 1,
        items = [\<lparr>item_index = 0, item_offset = 0, item_length = 4\<rparr>], delimiter = None\<rparr>
   \<and> slice [0xfe, 0xff, 0x00, 0xe0, 4, 0, 0, 0, 1, 2, 3, 4,
             0xfe, 0xff, 0x00, 0xe0, 1, 0, 0, 0, 9 :: byte] 8 12 = [1, 2, 3, 4]"
proof -
  have h1: "length [4, 0, 0, 0 :: byte] = 4" by simp
  have h2: "from_bytes_little [4, 0, 0, 0] = 4" by (simp add: from_bytes_little_def)
  have h3: "(4::nat) \<noteq> 0" by simp
  have h4: "(4::nat) \<noteq> 0xffffffff" by simp
  have h5: "length [1, 2, 3, 4 :: byte] = 4" by simp
  show ?thesis
    using h2 first_data_item_recorded [OF h1 h2 h3 h4 h5, of "[0xfe, 0xff, 0x00, 0xe0, 1, 0, 0, 0, 9]"]
    by (simp add: item_tag_def)
qed

subsection \<open>C9: a sequence delimiter at the start\<close>

text \<open>
  Claim C9. For a buffer that begins with \<open>FE FF DD E0\<close> the walk records no item,
  records the delimiter at offset 0 and leaves the loop with \<open>pos = 0\<close>: the bytes
  after the delimiter have no influence on the result.
\<close>

theorem delimiter_first_stops_walk:
  "encapsulation (sequence_delimiter @ rest) =
     \<lparr>end_pos = 0, item_count = 0, items = [], delimiter = Some 0\<rparr>"
proof -
  let ?raw = "sequence_delimiter @ rest"
  have "0 < min (length ?raw) 200" by (simp add: sequence_delimiter_def)
  moreover have "slice ?raw 0 (0 + 4) = sequence_delimiter"
    by (simp add: slice_def sequence_delimiter_def)
  moreover have "sequence_delimiter \<noteq> item_tag"
    by (simp add: sequence_delimiter_def item_tag_def)
  ultimately show ?thesis
    unfolding encapsulation_def by (simp add: encap_loop_delimiter)
qed

theorem delimiter_first_stops_walk_witness:
  "encapsulation [0xfe, 0xff, 0xdd, 0xe0, 0xfe, 0xff, 0x00, 0xe0, 2, 0, 0, 0, 7, 7] =
     \<lparr>end_pos = 0, item_count = 0, items = [], delimiter = Some 0\<rparr>"
  using delimiter_first_stops_walk [of "[0xfe, 0xff, 0x00, 0xe0, 2, 0, 0, 0, 7, 7]"]
  by (simp add: sequence_delimiter_def)

subsection \<open>C10: avcC at offset 0\<close>

text \<open>
  Claim C10. For a buffer that begins with the bytes avcC, \<open>raw.find\<close> returns 0,
  the test \<open>avc_pos > 0\<close> fails and the avcC pass reports that no avcC box was found,
  however many bytes follow; the report of the analysis carries no AVC configuration.
\<close>

theorem avc_at_offset_zero_not_reported:
  "read_avc (avcC @ rest) = Inr None
   \<and> h264 (video (analyze_pixel_data (Some (avcC @ rest)))) = None"
proof -
  have "bytes_find (avcC @ rest) avcC = 0"
    by (simp add: bytes_find_def avcC_def)
  then have none: "read_avc (avcC @ rest) = Inr None"
    by (simp add: read_avc_def)
  then show ?thesis
    by (simp add: analyze_pixel_data_def video_stream_check_def split: option.splits)
qed

theorem avc_at_offset_zero_not_reported_witness:
  "read_avc [0x61, 0x76, 0x63, 0x43, 1, 77, 0, 30, 0, 0] = Inr None
   \<and> h264 (video (analyze_pixel_data
        (Some [0x61, 0x76, 0x63, 0x43, 1, 77, 0, 30, 0, 0]))) = None"
  using avc_at_offset_zero_not_reported [of "[1, 77, 0, 30, 0, 0]"]
  by (simp add: avcC_def)

end
